theory Spec2Isabelle
  imports
    Main
    "HOL-Library.AList"
    "HOL-Library.Char_ord"
    "HOL-Library.List_Lexorder"
    "HOL-Library.Product_Lexorder"
begin

section \<open>The transition table of fsm.go\<close>

text \<open>
  \<^verbatim>\<open>type State string\<close> and \<^verbatim>\<open>type Event string\<close>: Go strings are byte
  sequences, compared bytewise, which is the lexicographic order on \<open>char list\<close>.
\<close>

type_synonym State = string
type_synonym Event = string

text \<open>A Go \<^verbatim>\<open>error\<close> value, identified by its message.\<close>

datatype error = Error string

text \<open>
  \<^verbatim>\<open>type TransitionHandler func(from State, e Event, to State) error\<close>:
  \<open>None\<close> is the \<^verbatim>\<open>nil\<close> error. Handlers are taken to be functions of their
  arguments that return.
\<close>

type_synonym TransitionHandler = "State \<Rightarrow> Event \<Rightarrow> State \<Rightarrow> error option"

text \<open>\<^verbatim>\<open>type eKey struct { From State; Event Event }\<close>: the pair \<open>(From, Event)\<close>.\<close>

type_synonym eKey = "State \<times> Event"

text \<open>
  \<^verbatim>\<open>type Transition struct\<close>. The field \<open>Handle\<close> is a func value, which may be
  \<^verbatim>\<open>nil\<close> (\<open>None\<close>): calling it panics.
\<close>

record Transition =
  From :: State
  Event :: Event
  To :: State
  Handle :: "TransitionHandler option"

text \<open>
  \<^verbatim>\<open>type StateMachine struct\<close>. The map \<^verbatim>\<open>map[eKey]*Transition\<close> is an association
  list read with \<open>map_of\<close>; the \<^verbatim>\<open>nil\<close> map and the empty map are both \<open>[]\<close> (Go reads
  them alike, and \<^verbatim>\<open>addTransition\<close> replaces \<^verbatim>\<open>nil\<close> by an empty map before it
  writes). The order of the list stands for the order in which \<^verbatim>\<open>range\<close> visits the
  entries. A registered \<^verbatim>\<open>*Transition\<close> is stored by value: callers do not write to a
  transition after they registered it. The mutex is modelled apart, in the section on the mutex.
\<close>

record StateMachine =
  current :: State
  transitions :: "(eKey \<times> Transition) list"

text \<open>What a call does: return \<^verbatim>\<open>nil\<close>, return an error, or panic.\<close>

datatype ret = RetNil | RetErr error | Panicked

definition NewStateMachine :: "State \<Rightarrow> StateMachine" where
  "NewStateMachine c = \<lparr>current = c, transitions = []\<rparr>"

definition CurrentState :: "StateMachine \<Rightarrow> State" where
  "CurrentState fm = current fm"

text \<open>\<^verbatim>\<open>fmt.Errorf("state, event: [%v, %v] undefined", fm.current, event)\<close>\<close>

definition undefinedError :: "State \<Rightarrow> Event \<Rightarrow> error" where
  "undefinedError s e = Error (''state, event: ['' @ s @ '', '' @ e @ ''] undefined'')"

text \<open>\<^verbatim>\<open>fmt.Errorf("state, event: [%v, %v] existed", from, event)\<close>\<close>

definition existedError :: "State \<Rightarrow> Event \<Rightarrow> error" where
  "existedError s e = Error (''state, event: ['' @ s @ '', '' @ e @ ''] existed'')"

definition Trigger :: "StateMachine \<Rightarrow> Event \<Rightarrow> ret \<times> StateMachine" where
  "Trigger fm event =
     (case map_of (transitions fm) (current fm, event) of
        Some tr \<Rightarrow>
          (case Handle tr of
             None \<Rightarrow> (Panicked, fm)
           | Some h \<Rightarrow>
               (case h (current fm) event (To tr) of
                  Some err \<Rightarrow> (RetErr err, fm)
                | None \<Rightarrow> (RetNil, fm\<lparr>current := To tr\<rparr>)))
      | None \<Rightarrow> (RetErr (undefinedError (current fm) event), fm))"

text \<open>
  \<^verbatim>\<open>addTransition\<close>: the argument is a pointer, \<open>None\<close> when it is \<^verbatim>\<open>nil\<close>
  (reading \<^verbatim>\<open>transition.From\<close> panics then).
\<close>

definition addTransition :: "StateMachine \<Rightarrow> Transition option \<Rightarrow> ret \<times> StateMachine" where
  "addTransition fm p =
     (case p of
        None \<Rightarrow> (Panicked, fm)
      | Some transition \<Rightarrow>
          (let from = From transition; event = Event transition in
           case map_of (transitions fm) (from, event) of
             Some _ \<Rightarrow> (RetErr (existedError from event), fm)
           | None \<Rightarrow>
               (RetNil, fm\<lparr>transitions := transitions fm @ [((from, event), transition)]\<rparr>)))"

text \<open>\<^verbatim>\<open>AddTransitions\<close>: the loop over the batch, left at the first error.\<close>

fun AddTransitions :: "StateMachine \<Rightarrow> Transition option list \<Rightarrow> ret \<times> StateMachine" where
  "AddTransitions fm [] = (RetNil, fm)"
| "AddTransitions fm (transition # rest) =
     (case addTransition fm transition of
        (RetNil, fm') \<Rightarrow> AddTransitions fm' rest
      | (r, fm') \<Rightarrow> (r, fm'))"

section \<open>The renderer: \<^verbatim>\<open>View\<close>\<close>

definition nl :: string where
  "nl = [CHR 0x0A]"

definition dq :: string where
  "dq = [CHR 0x22]"

text \<open>The \<^verbatim>\<open>less\<close> closure handed to \<^verbatim>\<open>sort.Slice\<close>.\<close>

definition keyLess :: "eKey \<Rightarrow> eKey \<Rightarrow> bool" where
  "keyLess a b = (if fst a = fst b then snd a < snd b else fst a < fst b)"

text \<open>
  \<^verbatim>\<open>sort.Slice\<close> and \<^verbatim>\<open>sort.Strings\<close>, as insertion sort under the given
  \<^verbatim>\<open>less\<close>. Both are only applied to the keys of a map, which are pairwise different.
\<close>

fun insertBy :: "('a \<Rightarrow> 'a \<Rightarrow> bool) \<Rightarrow> 'a \<Rightarrow> 'a list \<Rightarrow> 'a list" where
  "insertBy lt x [] = [x]"
| "insertBy lt x (y # ys) = (if lt y x then y # insertBy lt x ys else x # y # ys)"

definition sortSlice :: "('a \<Rightarrow> 'a \<Rightarrow> bool) \<Rightarrow> 'a list \<Rightarrow> 'a list" where
  "sortSlice lt xs = foldr (insertBy lt) xs []"

definition sortStrings :: "string list \<Rightarrow> string list" where
  "sortStrings xs = sortSlice (\<lambda>a b. a < b) xs"

text \<open>The verb \<^verbatim>\<open>%d\<close> of \<^verbatim>\<open>fmt.Sprintf\<close> on an index, which is not negative.\<close>

fun itoa :: "nat \<Rightarrow> string" where
  "itoa n = (if n < 10 then [char_of (48 + n)] else itoa (n div 10) @ [char_of (48 + n mod 10)])"

declare itoa.simps [simp del]

text \<open>Reading a \<^verbatim>\<open>map[string]string\<close>: the zero value \<^verbatim>\<open>""\<close> for a missing key.\<close>

definition mapIndex :: "(string \<times> string) list \<Rightarrow> string \<Rightarrow> string" where
  "mapIndex m k = (case map_of m k of None \<Rightarrow> [] | Some v \<Rightarrow> v)"

definition getSortedTransitionKeys :: "(eKey \<times> Transition) list \<Rightarrow> eKey list" where
  "getSortedTransitionKeys ts = sortSlice keyLess (map fst ts)"

definition setIfAbsent :: "string \<Rightarrow> (string \<times> string) list \<Rightarrow> (string \<times> string) list" where
  "setIfAbsent k m = (if map_of m k = None then AList.update k [] m else m)"

text \<open>
  The closure \<^verbatim>\<open>getSortedStates\<close>: its first loop collects the states into
  \<^verbatim>\<open>statesToIDMap\<close>, its last loop writes the identifiers \<^verbatim>\<open>id0\<close>, \<^verbatim>\<open>id1\<close>, ...
\<close>

definition collectStates :: "(eKey \<times> Transition) list \<Rightarrow> (string \<times> string) list" where
  "collectStates ts =
     foldl (\<lambda>m (transition, target). setIfAbsent (To target) (setIfAbsent (fst transition) m))
       [] ts"

definition assignIDs :: "string list \<Rightarrow> (string \<times> string) list \<Rightarrow> (string \<times> string) list" where
  "assignIDs sortedStates m =
     foldl (\<lambda>m (i, state). AList.update state (''id'' @ itoa i) m) m (enumerate 0 sortedStates)"

definition getSortedStates ::
  "(eKey \<times> Transition) list \<Rightarrow> string list \<times> (string \<times> string) list" where
  "getSortedStates ts =
     (let statesToIDMap = collectStates ts;
          sortedStates = sortStrings (map fst statesToIDMap)
      in (sortedStates, assignIDs sortedStates statesToIDMap))"

text \<open>
  One line per sorted key \<open>k\<close>, from \<^verbatim>\<open>v := fm.transitions[k]\<close> and \<^verbatim>\<open>v.To\<close>;
  reading \<^verbatim>\<open>To\<close> through the \<^verbatim>\<open>nil\<close> pointer of a missing key would panic
  (\<open>None\<close>).
\<close>

fun transitionLines ::
  "(eKey \<Rightarrow> State \<Rightarrow> string) \<Rightarrow> (eKey \<times> Transition) list \<Rightarrow> eKey list \<Rightarrow> string option" where
  "transitionLines f ts [] = Some []"
| "transitionLines f ts (k # ks) =
     (case map_of ts k of
        None \<Rightarrow> None
      | Some v \<Rightarrow>
          (case transitionLines f ts ks of
             None \<Rightarrow> None
           | Some r \<Rightarrow> Some (f k (To v) @ nl @ r)))"

definition flowChartState :: "(string \<times> string) list \<Rightarrow> string \<Rightarrow> string" where
  "flowChartState ids state = ''    '' @ mapIndex ids state @ ''['' @ state @ '']'' @ nl"

definition flowChartTransition :: "(string \<times> string) list \<Rightarrow> eKey \<Rightarrow> State \<Rightarrow> string" where
  "flowChartTransition ids k to =
     ''    '' @ mapIndex ids (fst k) @ '' --> |'' @ snd k @ ''| '' @ mapIndex ids to"

definition flowChartHighlight :: "(string \<times> string) list \<Rightarrow> State \<Rightarrow> string" where
  "flowChartHighlight ids c = ''    style '' @ mapIndex ids c @ '' fill:'' @ ''#00AA00'' @ nl"

definition diagramTransition :: "eKey \<Rightarrow> State \<Rightarrow> string" where
  "diagramTransition k to = ''    '' @ fst k @ '' --> '' @ to @ '': '' @ snd k"

definition graphVizTransition :: "eKey \<Rightarrow> State \<Rightarrow> string" where
  "graphVizTransition k to =
     ''    '' @ dq @ fst k @ dq @ '' -> '' @ dq @ to @ dq @ '' [ label = '' @ dq @ snd k @ dq @ '' ];''"

definition graphVizState :: "State \<Rightarrow> string \<Rightarrow> string" where
  "graphVizState c k =
     (if k = c then ''    '' @ dq @ k @ dq @ '' [color = '' @ dq @ ''red'' @ dq @ ''];''
      else ''    '' @ dq @ k @ dq @ '';'') @ nl"

text \<open>
  \<^verbatim>\<open>View\<close> returns \<open>(graphViz, flowChart, diagram)\<close>, or \<open>None\<close> had it panicked.
\<close>

definition View :: "StateMachine \<Rightarrow> (string \<times> string \<times> string) option" where
  "View fm =
     (let sortedTransitionKeys = getSortedTransitionKeys (transitions fm);
          (sortedStates, statesToIDMap) = getSortedStates (transitions fm)
      in case transitionLines (flowChartTransition statesToIDMap) (transitions fm)
                sortedTransitionKeys of
           None \<Rightarrow> None
         | Some flowEdges \<Rightarrow>
             (case transitionLines diagramTransition (transitions fm) sortedTransitionKeys of
                None \<Rightarrow> None
              | Some diagramEdges \<Rightarrow>
                  (case transitionLines graphVizTransition (transitions fm)
                          sortedTransitionKeys of
                     None \<Rightarrow> None
                   | Some graphVizEdges \<Rightarrow>
                       Some (''digraph fsm {'' @ nl @ graphVizEdges @ nl
                               @ concat (map (graphVizState (current fm)) sortedStates)
                               @ ''}'' @ nl,
                             ''graph LR'' @ nl
                               @ concat (map (flowChartState statesToIDMap) sortedStates) @ nl
                               @ flowEdges @ nl
                               @ flowChartHighlight statesToIDMap (current fm),
                             ''stateDiagram'' @ nl
                               @ ''    [*] -->'' @ '' '' @ current fm @ nl
                               @ diagramEdges))))"

text \<open>The first line of an output: what precedes its first newline.\<close>

definition firstLine :: "string \<Rightarrow> string" where
  "firstLine s = takeWhile (\<lambda>c. c \<noteq> CHR 0x0A) s"

section \<open>Sequences of calls\<close>

text \<open>
  A client's calls on one table, in the order the mutex serialises them. A call that
  panicked leaves the table as it was at the panic, and later calls go on from there.
\<close>

datatype call = CallAddTransitions "Transition option list" | CallTrigger Event

fun step :: "StateMachine \<Rightarrow> call \<Rightarrow> StateMachine" where
  "step fm (CallAddTransitions batch) = snd (AddTransitions fm batch)"
| "step fm (CallTrigger event) = snd (Trigger fm event)"

definition run :: "StateMachine \<Rightarrow> call list \<Rightarrow> StateMachine" where
  "run fm calls = foldl step fm calls"

text \<open>The transition a call applied: the one \<^verbatim>\<open>Trigger\<close> found, when it returned \<^verbatim>\<open>nil\<close>.\<close>

fun fired :: "StateMachine \<Rightarrow> call \<Rightarrow> Transition list" where
  "fired fm (CallAddTransitions batch) = []"
| "fired fm (CallTrigger event) =
     (if fst (Trigger fm event) = RetNil
      then (case map_of (transitions fm) (current fm, event) of Some tr \<Rightarrow> [tr] | None \<Rightarrow> [])
      else [])"

fun applied :: "StateMachine \<Rightarrow> call list \<Rightarrow> Transition list" where
  "applied fm [] = []"
| "applied fm (c # cs) = fired fm c @ applied (step fm c) cs"

text \<open>
  The association list is a map: no key twice, and every entry stored under the key
  \<open>(From, Event)\<close> of its transition.
\<close>

definition wellFormed :: "StateMachine \<Rightarrow> bool" where
  "wellFormed fm =
     (distinct (map fst (transitions fm)) \<and>
      list_all (\<lambda>(k, v). k = (From v, Event v)) (transitions fm))"

section \<open>Tables of the scenarios\<close>

definition succeed :: TransitionHandler where
  "succeed from e to = None"

definition failing :: TransitionHandler where
  "failing from e to = Some (Error ''handler failed'')"

definition newTransition :: "State \<Rightarrow> Event \<Rightarrow> State \<Rightarrow> TransitionHandler \<Rightarrow> Transition" where
  "newTransition from e to h = \<lparr>From = from, Event = e, To = to, Handle = Some h\<rparr>"

definition scenarioA :: StateMachine where
  "scenarioA =
     snd (AddTransitions (NewStateMachine ''Pending'')
       [Some (newTransition ''Pending'' ''Pay'' ''Paid'' succeed),
        Some (newTransition ''Pending'' ''Cancel'' ''Canceled'' succeed)])"

text \<open>Scenario B, after the first registration of \<open>(Pending, Pay)\<close>.\<close>

definition scenarioB :: StateMachine where
  "scenarioB =
     snd (AddTransitions (NewStateMachine ''Pending'')
       [Some (newTransition ''Pending'' ''Pay'' ''Paid'' succeed)])"

text \<open>Scenario A as a sequence of calls.\<close>

definition callsA :: "call list" where
  "callsA =
     [CallAddTransitions
        [Some (newTransition ''Pending'' ''Pay'' ''Paid'' succeed),
         Some (newTransition ''Pending'' ''Cancel'' ''Canceled'' succeed)],
      CallTrigger ''Pay'',
      CallTrigger ''Cancel'']"

definition scenarioC :: StateMachine where
  "scenarioC =
     snd (AddTransitions (NewStateMachine ''A'') [Some (newTransition ''A'' ''X'' ''B'' failing)])"

definition scenarioD :: StateMachine where
  "scenarioD =
     snd (AddTransitions (NewStateMachine ''A'')
       [Some (newTransition ''A'' ''e1'' ''B'' succeed),
        Some (newTransition ''B'' ''e2'' ''C'' succeed),
        Some (newTransition ''C'' ''e3'' ''A'' succeed)])"

text \<open>The same cycle, registered in another order.\<close>

definition scenarioD' :: StateMachine where
  "scenarioD' =
     snd (AddTransitions (NewStateMachine ''A'')
       [Some (newTransition ''C'' ''e3'' ''A'' succeed),
        Some (newTransition ''A'' ''e1'' ''B'' succeed),
        Some (newTransition ''B'' ''e2'' ''C'' succeed)])"

section \<open>The mutex\<close>

text \<open>
  What each method does to \<^verbatim>\<open>fm.mutex\<close> and to the two fields it guards, in program
  order: \<^verbatim>\<open>fm.mutex.Lock()\<close>, the deferred \<^verbatim>\<open>fm.mutex.Unlock()\<close> (run when the
  method returns or panics), and every read and write of \<^verbatim>\<open>fm.current\<close> and of
  \<^verbatim>\<open>fm.transitions\<close>.
\<close>

datatype access =
  MutexLock | MutexUnlock | ReadCurrent | WriteCurrent | ReadTransitions | WriteTransitions

text \<open>\<^verbatim>\<open>CurrentState\<close> is the single statement \<^verbatim>\<open>return fm.current\<close>.\<close>

definition CurrentState_accesses :: "StateMachine \<Rightarrow> access list" where
  "CurrentState_accesses fm = [ReadCurrent]"

definition Trigger_accesses :: "StateMachine \<Rightarrow> Event \<Rightarrow> access list" where
  "Trigger_accesses fm event =
     [MutexLock, ReadTransitions, ReadCurrent] @
     (case map_of (transitions fm) (current fm, event) of
        Some tr \<Rightarrow>
          ReadCurrent #
          (case Handle tr of
             None \<Rightarrow> []
           | Some h \<Rightarrow>
               (case h (current fm) event (To tr) of
                  Some err \<Rightarrow> []
                | None \<Rightarrow> [WriteCurrent]))
      | None \<Rightarrow> [ReadCurrent]) @
     [MutexUnlock]"

definition addTransition_accesses :: "StateMachine \<Rightarrow> Transition option \<Rightarrow> access list" where
  "addTransition_accesses fm p =
     (case p of
        None \<Rightarrow> []
      | Some transition \<Rightarrow>
          ReadTransitions # (if transitions fm = [] then [WriteTransitions] else []) @
          ReadTransitions #
          (case map_of (transitions fm) (From transition, Event transition) of
             Some _ \<Rightarrow> []
           | None \<Rightarrow> [WriteTransitions]))"

fun AddTransitions_loop_accesses :: "StateMachine \<Rightarrow> Transition option list \<Rightarrow> access list" where
  "AddTransitions_loop_accesses fm [] = []"
| "AddTransitions_loop_accesses fm (transition # rest) =
     addTransition_accesses fm transition @
     (case addTransition fm transition of
        (RetNil, fm') \<Rightarrow> AddTransitions_loop_accesses fm' rest
      | (r, fm') \<Rightarrow> [])"

definition AddTransitions_accesses :: "StateMachine \<Rightarrow> Transition option list \<Rightarrow> access list" where
  "AddTransitions_accesses fm batch =
     MutexLock # AddTransitions_loop_accesses fm batch @ [MutexUnlock]"

text \<open>
  \<^verbatim>\<open>View\<close> reads \<^verbatim>\<open>fm.transitions\<close> for its two closures, then once per sorted key in
  each of the three builders, and \<^verbatim>\<open>fm.current\<close> for the highlight, for the start
  edge and once per sorted state. It never touches the mutex.
\<close>

definition View_accesses :: "StateMachine \<Rightarrow> access list" where
  "View_accesses fm =
     (let n = length (getSortedTransitionKeys (transitions fm));
          m = length (fst (getSortedStates (transitions fm)))
      in [ReadTransitions, ReadTransitions] @
         replicate n ReadTransitions @ [ReadCurrent] @
         [ReadCurrent] @ replicate n ReadTransitions @
         replicate n ReadTransitions @ replicate m ReadCurrent)"

text \<open>Every read and write of a guarded field happens while the mutex is held.\<close>

fun guarded :: "bool \<Rightarrow> access list \<Rightarrow> bool" where
  "guarded held [] = True"
| "guarded held (MutexLock # as) = guarded True as"
| "guarded held (MutexUnlock # as) = guarded False as"
| "guarded held (a # as) = (held \<and> guarded held as)"

section \<open>Trigger\<close>




lemma scenarioA_eq:
  "scenarioA =
     \<lparr>current = ''Pending'',
      transitions =
        [((''Pending'', ''Pay''), newTransition ''Pending'' ''Pay'' ''Paid'' succeed),
         ((''Pending'', ''Cancel''), newTransition ''Pending'' ''Cancel'' ''Canceled'' succeed)]\<rparr>"
  by (simp add: scenarioA_def NewStateMachine_def addTransition_def newTransition_def Let_def)

text \<open>
  C3: when the key \<open>(current state, event)\<close> is registered and the handler of its
  transition returns \<^verbatim>\<open>nil\<close>, \<^verbatim>\<open>Trigger\<close> returns \<^verbatim>\<open>nil\<close> and the current state
  is the transition's \<open>To\<close> afterwards; the registered transitions stay as they were. The
  witness is Scenario A: \<^verbatim>\<open>Trigger(Pay)\<close> from \<open>Pending\<close> succeeds and the state is
  \<open>Paid\<close>.
\<close>

theorem Trigger_success:
  assumes "map_of (transitions fm) (current fm, event) = Some tr"
    and "Handle tr = Some h"
    and "h (current fm) event (To tr) = None"
  shows "fst (Trigger fm event) = RetNil \<and>
         CurrentState (snd (Trigger fm event)) = To tr \<and>
         transitions (snd (Trigger fm event)) = transitions fm"
  using assms by (simp add: Trigger_def CurrentState_def)

theorem Trigger_success_witness:
  "map_of (transitions scenarioA) (current scenarioA, ''Pay'')
     = Some (newTransition ''Pending'' ''Pay'' ''Paid'' succeed) \<and>
   Handle (newTransition ''Pending'' ''Pay'' ''Paid'' succeed) = Some succeed \<and>
   succeed (current scenarioA) ''Pay'' (To (newTransition ''Pending'' ''Pay'' ''Paid'' succeed))
     = None \<and>
   fst (Trigger scenarioA ''Pay'') = RetNil \<and>
   CurrentState (snd (Trigger scenarioA ''Pay'')) = ''Paid''"
proof -
  have a: "map_of (transitions scenarioA) (current scenarioA, ''Pay'')
             = Some (newTransition ''Pending'' ''Pay'' ''Paid'' succeed)"
    by (simp add: scenarioA_eq)
  have b: "Handle (newTransition ''Pending'' ''Pay'' ''Paid'' succeed) = Some succeed"
    by (simp add: newTransition_def)
  have c: "succeed (current scenarioA) ''Pay''
             (To (newTransition ''Pending'' ''Pay'' ''Paid'' succeed)) = None"
    by (simp add: succeed_def)
  have d: "To (newTransition ''Pending'' ''Pay'' ''Paid'' succeed) = ''Paid''"
    by (simp add: newTransition_def)
  from Trigger_success [OF a b c] a b c d show ?thesis by simp
qed

text \<open>
  C4: when no transition is registered for the key \<open>(current state, event)\<close>,
  \<^verbatim>\<open>Trigger\<close> returns the error whose message is
  \<^verbatim>\<open>state, event: [<current state>, <event>] undefined\<close>, and the table is unchanged.
\<close>

theorem Trigger_undefined:
  assumes "map_of (transitions fm) (current fm, event) = None"
  shows "Trigger fm event =
           (RetErr (Error (''state, event: ['' @ current fm @ '', '' @ event @ ''] undefined'')),
            fm) \<and>
         CurrentState (snd (Trigger fm event)) = CurrentState fm"
  using assms by (simp add: Trigger_def undefinedError_def)

theorem Trigger_undefined_witness:
  "map_of (transitions (snd (Trigger scenarioA ''Pay'')))
     (current (snd (Trigger scenarioA ''Pay'')), ''Cancel'') = None \<and>
   fst (Trigger (snd (Trigger scenarioA ''Pay'')) ''Cancel'') =
     RetErr (Error ''state, event: [Paid, Cancel] undefined'') \<and>
   CurrentState (snd (Trigger (snd (Trigger scenarioA ''Pay'')) ''Cancel'')) = ''Paid''"
proof -
  have p: "snd (Trigger scenarioA ''Pay'') = scenarioA\<lparr>current := ''Paid''\<rparr>"
    by (simp add: scenarioA_eq Trigger_def newTransition_def succeed_def)
  have a: "map_of (transitions (snd (Trigger scenarioA ''Pay'')))
             (current (snd (Trigger scenarioA ''Pay'')), ''Cancel'') = None"
    by (simp add: p) (simp add: scenarioA_eq)
  have c: "current (snd (Trigger scenarioA ''Pay'')) = ''Paid''"
    by (simp add: p)
  from Trigger_undefined [OF a] a c show ?thesis by (simp add: CurrentState_def)
qed

section \<open>AddTransitions and sequences of calls\<close>

lemma addTransition_RetNil:
  assumes "addTransition fm p = (RetNil, fm')"
  shows "\<exists>u. p = Some u \<and> map_of (transitions fm) (From u, Event u) = None \<and>
             fm' = fm\<lparr>transitions := transitions fm @ [((From u, Event u), u)]\<rparr>"
  using assms by (auto simp: addTransition_def Let_def split: option.splits)

lemma addTransition_not_RetNil:
  assumes "addTransition fm p = (r, fm')" and "r \<noteq> RetNil"
  shows "fm' = fm"
  using assms by (auto simp: addTransition_def Let_def split: option.splits)

lemma AddTransitions_append:
  "AddTransitions fm (xs @ ys) =
     (case AddTransitions fm xs of
        (RetNil, fm') \<Rightarrow> AddTransitions fm' ys
      | (r, fm') \<Rightarrow> (r, fm'))"
proof (induction xs arbitrary: fm)
  case Nil
  show ?case by simp
next
  case (Cons x xs)
  show ?case
  proof (cases "addTransition fm x")
    case (Pair r fm1)
    then show ?thesis using Cons.IH [of fm1] by (cases r) simp_all
  qed
qed

lemma AddTransitions_RetNil:
  assumes "AddTransitions fm pre = (RetNil, fm')"
  shows "\<exists>us. pre = map Some us \<and> current fm' = current fm \<and>
              transitions fm' = transitions fm @ map (\<lambda>u. ((From u, Event u), u)) us"
  using assms
proof (induction pre arbitrary: fm)
  case Nil
  then show ?case by simp
next
  case (Cons x xs)
  obtain r fm1 where s: "addTransition fm x = (r, fm1)" by (cases "addTransition fm x")
  with Cons.prems have r: "r = RetNil" and rest: "AddTransitions fm1 xs = (RetNil, fm')"
    by (cases r; simp)+
  from addTransition_RetNil [OF s [unfolded r]] obtain u where
    u: "x = Some u" "fm1 = fm\<lparr>transitions := transitions fm @ [((From u, Event u), u)]\<rparr>"
    by blast
  from Cons.IH [OF rest] obtain us where
    us: "xs = map Some us" "current fm' = current fm1"
        "transitions fm' = transitions fm1 @ map (\<lambda>u. ((From u, Event u), u)) us"
    by blast
  show ?case
    by (rule exI [of _ "u # us"]) (use u us in simp)
qed

lemma addTransition_keeps:
  assumes "map_of (transitions fm) k = Some v"
  shows "map_of (transitions (snd (addTransition fm p))) k = Some v"
  using assms by (auto simp: addTransition_def Let_def map_add_Some_iff split: option.splits)

lemma addTransition_distinct:
  assumes "distinct (map fst (transitions fm))"
  shows "distinct (map fst (transitions (snd (addTransition fm p))))"
  using assms
  by (auto simp: addTransition_def Let_def map_of_eq_None_iff split: option.splits)

lemma AddTransitions_keeps:
  assumes "map_of (transitions fm) k = Some v"
  shows "map_of (transitions (snd (AddTransitions fm batch))) k = Some v"
  using assms
proof (induction batch arbitrary: fm)
  case Nil
  then show ?case by simp
next
  case (Cons x xs)
  obtain r fm1 where s: "addTransition fm x = (r, fm1)" by (cases "addTransition fm x")
  have k: "map_of (transitions fm1) k = Some v"
    using addTransition_keeps [OF Cons.prems, of x] s by simp
  show ?case using s k Cons.IH [OF k] by (cases r) simp_all
qed

lemma AddTransitions_distinct:
  assumes "distinct (map fst (transitions fm))"
  shows "distinct (map fst (transitions (snd (AddTransitions fm batch))))"
  using assms
proof (induction batch arbitrary: fm)
  case Nil
  then show ?case by simp
next
  case (Cons x xs)
  obtain r fm1 where s: "addTransition fm x = (r, fm1)" by (cases "addTransition fm x")
  have k: "distinct (map fst (transitions fm1))"
    using addTransition_distinct [OF Cons.prems, of x] s by simp
  show ?case using s k Cons.IH [OF k] by (cases r) simp_all
qed

lemma wellFormed_New: "wellFormed (NewStateMachine s)"
  by (simp add: wellFormed_def NewStateMachine_def)

lemma addTransition_wellFormed:
  assumes "wellFormed fm"
  shows "wellFormed (snd (addTransition fm p))"
  using assms
  by (auto simp: wellFormed_def addTransition_def Let_def map_of_eq_None_iff split: option.splits)

lemma AddTransitions_wellFormed:
  assumes "wellFormed fm"
  shows "wellFormed (snd (AddTransitions fm batch))"
  using assms
proof (induction batch arbitrary: fm)
  case Nil
  then show ?case by simp
next
  case (Cons x xs)
  obtain r fm1 where s: "addTransition fm x = (r, fm1)" by (cases "addTransition fm x")
  have k: "wellFormed fm1"
    using addTransition_wellFormed [OF Cons.prems, of x] s by simp
  show ?case using s k Cons.IH [OF k] by (cases r) simp_all
qed

lemma Trigger_transitions: "transitions (snd (Trigger fm event)) = transitions fm"
  by (simp add: Trigger_def split: option.splits)

lemma Trigger_wellFormed: "wellFormed fm \<Longrightarrow> wellFormed (snd (Trigger fm event))"
  by (simp add: wellFormed_def Trigger_transitions)

lemma step_wellFormed: "wellFormed fm \<Longrightarrow> wellFormed (step fm c)"
  by (cases c) (simp_all add: AddTransitions_wellFormed Trigger_wellFormed)

lemma run_Cons: "run fm (c # cs) = run (step fm c) cs"
  by (simp add: run_def)

lemma run_Nil: "run fm [] = fm"
  by (simp add: run_def)

lemma run_wellFormed: "wellFormed fm \<Longrightarrow> wellFormed (run fm calls)"
  by (induction calls arbitrary: fm) (simp_all add: run_Nil run_Cons step_wellFormed)

lemma step_keeps:
  "map_of (transitions fm) k = Some v \<Longrightarrow> map_of (transitions (step fm c)) k = Some v"
  by (cases c) (simp_all add: AddTransitions_keeps Trigger_transitions)

lemma run_keeps:
  "map_of (transitions fm) k = Some v \<Longrightarrow> map_of (transitions (run fm calls)) k = Some v"
  by (induction calls arbitrary: fm) (simp_all add: run_Nil run_Cons step_keeps)

lemma AddTransitions_current: "current (snd (AddTransitions fm batch)) = current fm"
proof (induction batch arbitrary: fm)
  case Nil
  show ?case by simp
next
  case (Cons x xs)
  obtain r fm1 where s: "addTransition fm x = (r, fm1)" by (cases "addTransition fm x")
  have c: "current fm1 = current fm"
    using s by (auto simp: addTransition_def Let_def split: option.splits)
  show ?case using s c Cons.IH [of fm1] by (cases r) simp_all
qed

lemma fired_step:
  "(fired fm c = [] \<and> current (step fm c) = current fm) \<or>
   (\<exists>tr event. c = CallTrigger event \<and> fired fm c = [tr] \<and> current (step fm c) = To tr \<and>
      map_of (transitions fm) (current fm, event) = Some tr)"
proof (cases c)
  case (CallAddTransitions batch)
  then show ?thesis by (simp add: AddTransitions_current)
next
  case (CallTrigger event)
  then show ?thesis by (auto simp: Trigger_def split: option.splits)
qed

lemma current_run: "current (run fm calls) = last (current fm # map To (applied fm calls))"
proof (induction calls arbitrary: fm)
  case Nil
  show ?case by (simp add: run_Nil)
next
  case (Cons c cs)
  from fired_step [of fm c] show ?case
  proof
    assume "fired fm c = [] \<and> current (step fm c) = current fm"
    then show ?thesis using Cons.IH [of "step fm c"] by (simp add: run_Cons)
  next
    assume "\<exists>tr event. c = CallTrigger event \<and> fired fm c = [tr] \<and>
              current (step fm c) = To tr \<and>
              map_of (transitions fm) (current fm, event) = Some tr"
    then obtain tr where "fired fm c = [tr]" "current (step fm c) = To tr" by blast
    then show ?thesis using Cons.IH [of "step fm c"] by (simp add: run_Cons)
  qed
qed

lemma wellFormed_key:
  assumes "wellFormed fm" and "map_of (transitions fm) k = Some v"
  shows "k = (From v, Event v)"
proof -
  from assms(2) have "(k, v) \<in> set (transitions fm)" by (rule map_of_SomeD)
  with assms(1) show ?thesis by (auto simp: wellFormed_def list_all_iff)
qed

lemma fired_mem:
  assumes "tr \<in> set (fired fm c)"
  shows "\<exists>event. map_of (transitions fm) (current fm, event) = Some tr"
proof (cases c)
  case (CallAddTransitions batch)
  with assms show ?thesis by simp
next
  case (CallTrigger event)
  show ?thesis
  proof (cases "map_of (transitions fm) (current fm, event)")
    case None
    with CallTrigger have "fired fm c = []" by simp
    with assms show ?thesis by simp
  next
    case (Some u)
    with CallTrigger have "fired fm c = [u] \<or> fired fm c = []" by simp
    with assms have "u = tr" by auto
    with Some show ?thesis by blast
  qed
qed

lemma applied_registered:
  assumes "wellFormed fm" and "tr \<in> set (applied fm calls)"
  shows "map_of (transitions (run fm calls)) (From tr, Event tr) = Some tr"
  using assms
proof (induction calls arbitrary: fm)
  case Nil
  then show ?case by simp
next
  case (Cons c cs)
  have wf: "wellFormed (step fm c)" using Cons.prems(1) by (rule step_wellFormed)
  from Cons.prems(2) have "tr \<in> set (fired fm c) \<or> tr \<in> set (applied (step fm c) cs)"
    by auto
  then show ?case
  proof
    assume "tr \<in> set (applied (step fm c) cs)"
    then show ?thesis using Cons.IH [OF wf] by (simp add: run_Cons)
  next
    assume f: "tr \<in> set (fired fm c)"
    have "\<exists>event. map_of (transitions fm) (current fm, event) = Some tr"
      using f by (rule fired_mem)
    then obtain event where
      m: "map_of (transitions fm) (current fm, event) = Some tr" by blast
    from wellFormed_key [OF Cons.prems(1) m] m
    have "map_of (transitions fm) (From tr, Event tr) = Some tr" by simp
    then have "map_of (transitions (run fm (c # cs))) (From tr, Event tr) = Some tr"
      by (rule run_keeps)
    then show ?thesis .
  qed
qed

lemma scenarioB_eq:
  "scenarioB =
     \<lparr>current = ''Pending'',
      transitions = [((''Pending'', ''Pay''), newTransition ''Pending'' ''Pay'' ''Paid'' succeed)]\<rparr>"
  by (simp add: scenarioB_def NewStateMachine_def addTransition_def newTransition_def Let_def)

lemma scenarioB_add:
  "AddTransitions (NewStateMachine ''Pending'')
     [Some (newTransition ''Pending'' ''Pay'' ''Paid'' succeed)] = (RetNil, scenarioB)"
  by (simp add: scenarioB_eq NewStateMachine_def addTransition_def newTransition_def Let_def)

text \<open>
  C5: when the batch reaches a transition whose key \<open>(From, Event)\<close> is registered
  already (the transitions before it in the batch having been added), \<^verbatim>\<open>AddTransitions\<close>
  returns the error with the message \<^verbatim>\<open>state, event: [<from>, <event>] existed\<close>; the
  table it leaves is the one it had on reaching the duplicate, so the duplicate is not stored
  and nothing after it in the batch is looked at; that table is the earlier one followed by the
  transitions of the batch before the duplicate, every key registered before keeps its
  transition, and no key occurs twice, in this table and in every table that calls on a new
  machine can produce.
\<close>

theorem AddTransitions_duplicate:
  assumes "AddTransitions fm pre = (RetNil, fm')"
    and "map_of (transitions fm') (From t, Event t) = Some old"
  shows "AddTransitions fm (pre @ Some t # post) =
           (RetErr (Error (''state, event: ['' @ From t @ '', '' @ Event t @ ''] existed'')), fm') \<and>
         (\<exists>us. pre = map Some us \<and>
               transitions fm' = transitions fm @ map (\<lambda>u. ((From u, Event u), u)) us) \<and>
         (\<forall>k v. map_of (transitions fm) k = Some v \<longrightarrow> map_of (transitions fm') k = Some v) \<and>
         (distinct (map fst (transitions fm)) \<longrightarrow> distinct (map fst (transitions fm'))) \<and>
         distinct (map fst (transitions (run (NewStateMachine s0) calls)))"
proof -
  have "addTransition fm' (Some t) = (RetErr (existedError (From t) (Event t)), fm')"
    using assms(2) by (simp add: addTransition_def Let_def)
  then have "AddTransitions fm (pre @ Some t # post) =
               (RetErr (existedError (From t) (Event t)), fm')"
    using assms(1) by (simp add: AddTransitions_append)
  moreover have "\<exists>us. pre = map Some us \<and>
      transitions fm' = transitions fm @ map (\<lambda>u. ((From u, Event u), u)) us"
    using AddTransitions_RetNil [OF assms(1)] by blast
  moreover have "\<forall>k v. map_of (transitions fm) k = Some v \<longrightarrow> map_of (transitions fm') k = Some v"
    using AddTransitions_keeps [of fm _ _ pre] assms(1) by simp
  moreover have "distinct (map fst (transitions fm)) \<longrightarrow> distinct (map fst (transitions fm'))"
    using AddTransitions_distinct [of fm pre] assms(1) by simp
  moreover have "distinct (map fst (transitions (run (NewStateMachine s0) calls)))"
    using run_wellFormed [OF wellFormed_New, of s0 calls] by (simp add: wellFormed_def)
  ultimately show ?thesis by (simp add: existedError_def)
qed

theorem AddTransitions_duplicate_witness:
  "AddTransitions (NewStateMachine ''Pending'')
     [Some (newTransition ''Pending'' ''Pay'' ''Paid'' succeed)] = (RetNil, scenarioB) \<and>
   map_of (transitions scenarioB)
     (From (newTransition ''Pending'' ''Pay'' ''Canceled'' failing),
      Event (newTransition ''Pending'' ''Pay'' ''Canceled'' failing))
     = Some (newTransition ''Pending'' ''Pay'' ''Paid'' succeed) \<and>
   AddTransitions (NewStateMachine ''Pending'')
     [Some (newTransition ''Pending'' ''Pay'' ''Paid'' succeed),
      Some (newTransition ''Pending'' ''Pay'' ''Canceled'' failing),
      Some (newTransition ''Pending'' ''Cancel'' ''Canceled'' succeed)]
     = (RetErr (Error ''state, event: [Pending, Pay] existed''), scenarioB) \<and>
   map fst (transitions scenarioB) = [(''Pending'', ''Pay'')]"
proof -
  have a: "map_of (transitions scenarioB)
     (From (newTransition ''Pending'' ''Pay'' ''Canceled'' failing),
      Event (newTransition ''Pending'' ''Pay'' ''Canceled'' failing))
     = Some (newTransition ''Pending'' ''Pay'' ''Paid'' succeed)"
    by (simp add: scenarioB_eq) (simp add: newTransition_def)
  have k: "From (newTransition ''Pending'' ''Pay'' ''Canceled'' failing) = ''Pending''"
    "Event (newTransition ''Pending'' ''Pay'' ''Canceled'' failing) = ''Pay''"
    by (simp_all add: newTransition_def)
  have m: "map fst (transitions scenarioB) = [(''Pending'', ''Pay'')]"
    by (simp add: scenarioB_eq)
  from AddTransitions_duplicate [OF scenarioB_add a,
      of "[Some (newTransition ''Pending'' ''Cancel'' ''Canceled'' succeed)]"]
  have "AddTransitions (NewStateMachine ''Pending'')
     [Some (newTransition ''Pending'' ''Pay'' ''Paid'' succeed),
      Some (newTransition ''Pending'' ''Pay'' ''Canceled'' failing),
      Some (newTransition ''Pending'' ''Cancel'' ''Canceled'' succeed)]
     = (RetErr (Error ''state, event: [Pending, Pay] existed''), scenarioB)"
    by (simp add: k)
  with scenarioB_add a m show ?thesis by simp
qed

text \<open>
  C2: after any sequence of \<^verbatim>\<open>AddTransitions\<close> and \<^verbatim>\<open>Trigger\<close> calls on a new
  machine, the current state is the \<open>To\<close> of the transition applied last, or the state given
  at construction when none was applied; so it is the state given at construction or the
  \<open>To\<close> of a transition that a \<^verbatim>\<open>Trigger\<close> applied with success and that is registered.
\<close>

theorem current_state_origin:
  "CurrentState (run (NewStateMachine s0) calls)
     = last (s0 # map To (applied (NewStateMachine s0) calls)) \<and>
   (CurrentState (run (NewStateMachine s0) calls) = s0 \<or>
    (\<exists>tr \<in> set (applied (NewStateMachine s0) calls).
       CurrentState (run (NewStateMachine s0) calls) = To tr \<and>
       map_of (transitions (run (NewStateMachine s0) calls)) (From tr, Event tr) = Some tr))"
proof -
  let ?fm = "NewStateMachine s0"
  have l: "current (run ?fm calls) = last (s0 # map To (applied ?fm calls))"
    using current_run [of ?fm calls] by (simp add: NewStateMachine_def)
  show ?thesis
  proof (cases "applied ?fm calls = []")
    case True
    with l show ?thesis by (simp add: CurrentState_def)
  next
    case False
    then have "last (applied ?fm calls) \<in> set (applied ?fm calls)" by simp
    moreover have "current (run ?fm calls) = To (last (applied ?fm calls))"
      using l False by (simp add: last_map)
    moreover have "map_of (transitions (run ?fm calls))
        (From (last (applied ?fm calls)), Event (last (applied ?fm calls)))
          = Some (last (applied ?fm calls))"
      using applied_registered [OF wellFormed_New, of "last (applied ?fm calls)" s0 calls] False
      by simp
    ultimately show ?thesis using l by (auto simp: CurrentState_def)
  qed
qed

lemma run_callsA:
  "run (NewStateMachine ''Pending'') callsA = scenarioA\<lparr>current := ''Paid''\<rparr>"
  by (simp add: run_def callsA_def scenarioA_eq NewStateMachine_def addTransition_def
      Trigger_def newTransition_def succeed_def Let_def)

lemma applied_callsA:
  "applied (NewStateMachine ''Pending'') callsA = [newTransition ''Pending'' ''Pay'' ''Paid'' succeed]"
  by (simp add: callsA_def NewStateMachine_def addTransition_def
      Trigger_def newTransition_def succeed_def Let_def)

theorem current_state_origin_witness:
  "CurrentState (run (NewStateMachine ''Pending'') callsA) = ''Paid'' \<and>
   applied (NewStateMachine ''Pending'') callsA
     = [newTransition ''Pending'' ''Pay'' ''Paid'' succeed] \<and>
   map_of (transitions (run (NewStateMachine ''Pending'') callsA)) (''Pending'', ''Pay'')
     = Some (newTransition ''Pending'' ''Pay'' ''Paid'' succeed)"
proof -
  have t: "To (newTransition ''Pending'' ''Pay'' ''Paid'' succeed) = ''Paid''"
    "From (newTransition ''Pending'' ''Pay'' ''Paid'' succeed) = ''Pending''"
    "Event (newTransition ''Pending'' ''Pay'' ''Paid'' succeed) = ''Pay''"
    by (simp_all add: newTransition_def)
  from current_state_origin [of "''Pending''" callsA] show ?thesis
    by (auto simp: applied_callsA t)
qed

text \<open>
  C6, as the code has it: in every table that calls on a new machine can produce,
  \<^verbatim>\<open>Trigger\<close> returns \<^verbatim>\<open>nil\<close> exactly when the key \<open>(current state, event)\<close> is
  registered, its transition has a handler, and that handler returns \<^verbatim>\<open>nil\<close>.
\<close>

theorem Trigger_succeeds_iff:
  "fst (Trigger (run (NewStateMachine s0) calls) event) = RetNil \<longleftrightarrow>
   (\<exists>tr h. map_of (transitions (run (NewStateMachine s0) calls))
              (CurrentState (run (NewStateMachine s0) calls), event) = Some tr \<and>
           Handle tr = Some h \<and>
           h (CurrentState (run (NewStateMachine s0) calls)) event (To tr) = None)"
  by (auto simp: Trigger_def CurrentState_def split: option.splits)

theorem Trigger_succeeds_iff_witness:
  "fst (Trigger (run (NewStateMachine ''Pending'') callsA) ''Cancel'') \<noteq> RetNil \<and>
   map_of (transitions (run (NewStateMachine ''Pending'') callsA))
     (CurrentState (run (NewStateMachine ''Pending'') callsA), ''Cancel'') = None"
proof -
  have n: "map_of (transitions (run (NewStateMachine ''Pending'') callsA))
     (CurrentState (run (NewStateMachine ''Pending'') callsA), ''Cancel'') = None"
    by (simp add: run_callsA CurrentState_def) (simp add: scenarioA_eq)
  from Trigger_succeeds_iff [of "''Pending''" callsA "''Cancel''"] n show ?thesis
    by simp
qed

text \<open>
  Registration alone is not enough: in Scenario C the key \<open>(A, X)\<close> is registered and the
  machine is in \<open>A\<close>, its initial state, yet \<^verbatim>\<open>Trigger(X)\<close> returns the handler's error.
\<close>

theorem Trigger_iff_registered_counterexample:
  "scenarioC = run (NewStateMachine ''A'')
                 [CallAddTransitions [Some (newTransition ''A'' ''X'' ''B'' failing)]] \<and>
   CurrentState scenarioC = ''A'' \<and>
   map_of (transitions scenarioC) (''A'', ''X'') = Some (newTransition ''A'' ''X'' ''B'' failing) \<and>
   fst (Trigger scenarioC ''X'') = RetErr (Error ''handler failed'')"
  by (simp add: run_def scenarioC_def)
     (simp add: NewStateMachine_def addTransition_def Trigger_def CurrentState_def
        newTransition_def failing_def)

section \<open>View\<close>

text \<open>
  On keys that are pairwise different, sorting under \<^verbatim>\<open>less\<close> gives the one strictly
  increasing arrangement of them, which is what the library's \<open>sort\<close> returns.
\<close>

lemma insertBy_less: "insertBy (\<lambda>a b. a < b) (x::'a::linorder) xs = insort x xs"
  by (induction xs) auto

lemma sortSlice_less: "sortSlice (\<lambda>a b. a < b) (xs::'a::linorder list) = sort xs"
  by (induction xs) (simp_all add: sortSlice_def insertBy_less)

lemma keyLess_less: "keyLess a b \<longleftrightarrow> a < b"
  by (auto simp: keyLess_def less_prod_def')

lemma getSortedTransitionKeys_sort: "getSortedTransitionKeys ts = sort (map fst ts)"
proof -
  have kl: "keyLess = (\<lambda>a b. a < b)" by (intro ext) (rule keyLess_less)
  show ?thesis unfolding getSortedTransitionKeys_def kl by (rule sortSlice_less)
qed

lemma sortStrings_sort: "sortStrings xs = sort xs"
  by (simp add: sortStrings_def sortSlice_less)

lemma sort_unique:
  fixes xs ys :: "'a::linorder list"
  assumes "distinct xs" and "distinct ys" and "set xs = set ys"
  shows "sort xs = sort ys"
  by (rule sorted_distinct_set_unique) (simp_all add: assms)

lemma setIfAbsent_keys: "fst ` set (setIfAbsent k m) = insert k (fst ` set m)"
proof (cases "map_of m k")
  case None
  then show ?thesis by (simp add: setIfAbsent_def dom_update)
next
  case (Some v)
  then have "k \<in> fst ` set m" by (metis map_of_eq_None_iff option.distinct(1))
  with Some show ?thesis by (auto simp: setIfAbsent_def)
qed

lemma setIfAbsent_distinct: "distinct (map fst m) \<Longrightarrow> distinct (map fst (setIfAbsent k m))"
  by (simp add: setIfAbsent_def distinct_update)

lemma collect_fold:
  "fst ` set (foldl (\<lambda>m (transition, target).
                      setIfAbsent (To target) (setIfAbsent (fst transition) m)) m ts)
     = fst ` set m \<union> (\<Union>(k, v) \<in> set ts. {fst k, To v}) \<and>
   (distinct (map fst m) \<longrightarrow>
    distinct (map fst (foldl (\<lambda>m (transition, target).
                      setIfAbsent (To target) (setIfAbsent (fst transition) m)) m ts)))"
proof (induction ts arbitrary: m)
  case Nil
  show ?case by simp
next
  case (Cons e ts)
  obtain k v where e: "e = (k, v)" by (cases e)
  let ?m = "setIfAbsent (To v) (setIfAbsent (fst k) m)"
  have a: "fst ` set ?m = insert (To v) (insert (fst k) (fst ` set m))"
    by (simp add: setIfAbsent_keys)
  have b: "distinct (map fst m) \<longrightarrow> distinct (map fst ?m)"
    by (simp add: setIfAbsent_distinct)
  from Cons.IH [of ?m] a b show ?case by (auto simp: e)
qed

lemma collectStates_keys:
  "set (map fst (collectStates ts)) = (\<Union>(k, v) \<in> set ts. {fst k, To v})"
  using collect_fold [of "[]" ts] by (simp add: collectStates_def)

lemma collectStates_distinct: "distinct (map fst (collectStates ts))"
  using collect_fold [of "[]" ts] by (simp add: collectStates_def)

lemma getSortedStates_fst: "fst (getSortedStates ts) = sort (map fst (collectStates ts))"
  by (simp add: getSortedStates_def Let_def sortStrings_sort)

lemma getSortedStates_order:
  assumes "set ts1 = set ts2"
  shows "fst (getSortedStates ts1) = fst (getSortedStates ts2)"
  unfolding getSortedStates_fst
  by (rule sort_unique) (simp_all only: collectStates_distinct collectStates_keys assms)

lemma dom_swapped:
  "dom (map_of (map (\<lambda>(i, state). (state, g i)) ps)) = snd ` set ps"
  unfolding dom_map_of_conv_image_fst by force

lemma assign_fold:
  assumes "distinct (map snd ps)"
  shows "map_of (foldl (\<lambda>m (i, state). AList.update state (f i) m) m ps)
           = map_of m ++ map_of (map (\<lambda>(i, state). (state, f i)) ps)"
  using assms
proof (induction ps arbitrary: m)
  case Nil
  show ?case by simp
next
  case (Cons p ps)
  obtain i s where p: "p = (i, s)" by (cases p)
  from Cons.prems p have d: "distinct (map snd ps)" and n: "s \<notin> snd ` set ps" by auto
  have nd: "s \<notin> dom (map_of (map (\<lambda>(i, state). (state, f i)) ps))"
    using n by (simp add: dom_swapped)
  have "map_of (foldl (\<lambda>m (i, state). AList.update state (f i) m) m (p # ps))
          = (map_of m)(s \<mapsto> f i) ++ map_of (map (\<lambda>(i, state). (state, f i)) ps)"
    using Cons.IH [OF d, of "AList.update s (f i) m"]
    by (simp only: p foldl.simps prod.case update_conv')
  also have "\<dots> = map_of m ++ map_of (map (\<lambda>(i, state). (state, f i)) (p # ps))"
    using nd by (auto simp: p map_add_def fun_eq_iff split: option.splits)
  finally show ?case .
qed

lemma assignIDs_map_of:
  assumes "distinct ss" and "fst ` set m = set ss"
  shows "map_of (assignIDs ss m)
           = map_of (map (\<lambda>(i, state). (state, ''id'' @ itoa i)) (enumerate 0 ss))"
proof -
  let ?M = "map_of (map (\<lambda>(i, state). (state, ''id'' @ itoa i)) (enumerate 0 ss))"
  have "distinct (map snd (enumerate 0 ss))" using assms(1) by simp
  then have e: "map_of (assignIDs ss m) = map_of m ++ ?M"
    unfolding assignIDs_def by (rule assign_fold)
  have "snd ` set (enumerate 0 ss) = set (map snd (enumerate 0 ss))"
    by (simp only: set_map)
  then have "dom ?M = set ss"
    by (simp add: dom_swapped)
  moreover have "dom (map_of m) = set ss" using assms(2) by (simp add: dom_map_of_conv_image_fst)
  ultimately have "map_of m ++ ?M = ?M"
    by (auto simp: map_add_def fun_eq_iff split: option.splits)
  with e show ?thesis by simp
qed

lemma getSortedStates_ids:
  "map_of (snd (getSortedStates ts))
     = map_of (map (\<lambda>(i, state). (state, ''id'' @ itoa i))
         (enumerate 0 (fst (getSortedStates ts))))"
proof -
  have "distinct (sort (map fst (collectStates ts)))"
    by (simp add: collectStates_distinct)
  moreover have "fst ` set (collectStates ts) = set (sort (map fst (collectStates ts)))"
    by simp
  ultimately show ?thesis
    by (simp add: getSortedStates_def Let_def sortStrings_sort assignIDs_map_of)
qed

lemma mapIndex_cong: "map_of m = map_of m' \<Longrightarrow> mapIndex m = mapIndex m'"
  by (simp add: mapIndex_def fun_eq_iff)

lemma getSortedStates_mapIndex:
  assumes "set ts1 = set ts2"
  shows "mapIndex (snd (getSortedStates ts1)) = mapIndex (snd (getSortedStates ts2))"
  by (rule mapIndex_cong) (simp add: getSortedStates_ids getSortedStates_order [OF assms])

lemma transitionLines_cong:
  assumes "map_of ts = map_of ts'"
  shows "transitionLines f ts ks = transitionLines f ts' ks"
  by (induction ks) (simp_all add: assms split: option.splits)

lemma map_insort_key: "map f (insort_key f x xs) = insort (f x) (map f xs)"
  by (induction xs) simp_all

lemma map_sort_key: "map f (sort_key f xs) = sort (map f xs)"
  by (induction xs) (simp_all add: map_insort_key)

lemma transitionLines_entries:
  assumes "distinct (map fst ts)" and "set es \<subseteq> set ts"
  shows "transitionLines f ts (map fst es)
           = Some (concat (map (\<lambda>(k, v). f k (To v) @ nl) es))"
  using assms(2)
proof (induction es)
  case Nil
  show ?case by simp
next
  case (Cons e es)
  obtain k v where e: "e = (k, v)" by (cases e)
  with Cons.prems have "(k, v) \<in> set ts" by simp
  with assms(1) have "map_of ts k = Some v" by simp
  moreover from Cons have "transitionLines f ts (map fst es)
           = Some (concat (map (\<lambda>(k, v). f k (To v) @ nl) es))" by simp
  ultimately show ?case by (simp add: e)
qed

lemma transitionLines_sorted:
  assumes "distinct (map fst ts)"
  shows "transitionLines f ts (getSortedTransitionKeys ts)
           = Some (concat (map (\<lambda>(k, v). f k (To v) @ nl) (sort_key fst ts)))"
proof -
  have "getSortedTransitionKeys ts = map fst (sort_key fst ts)"
    by (simp add: getSortedTransitionKeys_sort map_sort_key)
  moreover have "set (sort_key fst ts) \<subseteq> set ts" by simp
  ultimately show ?thesis using transitionLines_entries [OF assms] by simp
qed

lemma View_explicit:
  assumes "distinct (map fst (transitions fm))"
  shows "View fm =
     Some (''digraph fsm {'' @ nl @
             concat (map (\<lambda>(k, v). graphVizTransition k (To v) @ nl)
               (sort_key fst (transitions fm))) @ nl @
             concat (map (graphVizState (current fm)) (fst (getSortedStates (transitions fm)))) @
             ''}'' @ nl,
           ''graph LR'' @ nl @
             concat (map (flowChartState (snd (getSortedStates (transitions fm))))
               (fst (getSortedStates (transitions fm)))) @ nl @
             concat (map (\<lambda>(k, v). flowChartTransition (snd (getSortedStates (transitions fm)))
                           k (To v) @ nl)
               (sort_key fst (transitions fm))) @ nl @
             flowChartHighlight (snd (getSortedStates (transitions fm))) (current fm),
           ''stateDiagram'' @ nl @ ''    [*] --> '' @ current fm @ nl @
             concat (map (\<lambda>(k, v). diagramTransition k (To v) @ nl)
               (sort_key fst (transitions fm))))"
  by (simp add: View_def Let_def split_beta transitionLines_sorted [OF assms])

lemma sorted_keys: "distinct (map fst ts) \<Longrightarrow> sorted_wrt keyLess (getSortedTransitionKeys ts)"
proof -
  assume "distinct (map fst ts)"
  then have "sorted_wrt (\<lambda>a b. a < b) (sort (map fst ts))"
    by (simp add: strict_sorted_iff)
  moreover have "keyLess = (\<lambda>a b. a < b)" by (intro ext) (rule keyLess_less)
  ultimately show ?thesis by (simp add: getSortedTransitionKeys_sort)
qed

lemma scenarioD_eq:
  "scenarioD =
     \<lparr>current = ''A'',
      transitions =
        [((''A'', ''e1''), newTransition ''A'' ''e1'' ''B'' succeed),
         ((''B'', ''e2''), newTransition ''B'' ''e2'' ''C'' succeed),
         ((''C'', ''e3''), newTransition ''C'' ''e3'' ''A'' succeed)]\<rparr>"
  by (simp add: scenarioD_def NewStateMachine_def addTransition_def newTransition_def Let_def)

lemma scenarioD'_eq:
  "scenarioD' =
     \<lparr>current = ''A'',
      transitions =
        [((''C'', ''e3''), newTransition ''C'' ''e3'' ''A'' succeed),
         ((''A'', ''e1''), newTransition ''A'' ''e1'' ''B'' succeed),
         ((''B'', ''e2''), newTransition ''B'' ''e2'' ''C'' succeed)]\<rparr>"
  by (simp add: scenarioD'_def NewStateMachine_def addTransition_def newTransition_def Let_def)

lemma getSortedStates_sorted_list:
  "fst (getSortedStates ts) = sorted_list_of_set (\<Union>(k, v) \<in> set ts. {fst k, To v})"
proof -
  have "sorted_list_of_set (set (map fst (collectStates ts)))
          = sort (remdups (map fst (collectStates ts)))"
    by (rule sorted_list_of_set_sort_remdups)
  also have "\<dots> = sort (map fst (collectStates ts))"
    by (simp add: collectStates_distinct distinct_remdups_id)
  finally show ?thesis
    by (simp only: getSortedStates_fst collectStates_keys)
qed

lemma View_same_entries:
  assumes "distinct (map fst (transitions fm1))"
    and "distinct (map fst (transitions fm2))"
    and "set (transitions fm1) = set (transitions fm2)"
    and "current fm1 = current fm2"
  shows "View fm1 = View fm2"
proof -
  let ?t1 = "transitions fm1" and ?t2 = "transitions fm2"
  have m: "map_of ?t1 = map_of ?t2"
    using assms(1-3) by (simp add: map_of_inject_set)
  have "set (map fst ?t1) = set (map fst ?t2)" using assms(3) by simp
  with assms(1,2) have "sort (map fst ?t1) = sort (map fst ?t2)" by (rule sort_unique)
  then have k: "getSortedTransitionKeys ?t1 = getSortedTransitionKeys ?t2"
    by (simp add: getSortedTransitionKeys_sort)
  have s: "fst (getSortedStates ?t1) = fst (getSortedStates ?t2)"
    using assms(3) by (rule getSortedStates_order)
  have i: "mapIndex (snd (getSortedStates ?t1)) = mapIndex (snd (getSortedStates ?t2))"
    using assms(3) by (rule getSortedStates_mapIndex)
  have ft: "flowChartTransition (snd (getSortedStates ?t1))
              = flowChartTransition (snd (getSortedStates ?t2))"
    by (intro ext) (simp add: flowChartTransition_def i)
  have fs: "flowChartState (snd (getSortedStates ?t1))
              = flowChartState (snd (getSortedStates ?t2))"
    by (intro ext) (simp add: flowChartState_def i)
  have fh: "flowChartHighlight (snd (getSortedStates ?t1))
              = flowChartHighlight (snd (getSortedStates ?t2))"
    by (intro ext) (simp add: flowChartHighlight_def i)
  have tl: "transitionLines f ?t1 ks = transitionLines f ?t2 ks" for f ks
    using m by (rule transitionLines_cong)
  have ln: "concat (map (\<lambda>(k, v). f k (To v) @ nl) (sort_key fst ?t1))
              = concat (map (\<lambda>(k, v). f k (To v) @ nl) (sort_key fst ?t2))" for f
  proof -
    have "Some (concat (map (\<lambda>(k, v). f k (To v) @ nl) (sort_key fst ?t1)))
            = transitionLines f ?t1 (getSortedTransitionKeys ?t1)"
      using assms(1) by (simp add: transitionLines_sorted)
    also have "\<dots> = transitionLines f ?t2 (getSortedTransitionKeys ?t2)"
      by (simp only: k tl)
    also have "\<dots> = Some (concat (map (\<lambda>(k, v). f k (To v) @ nl) (sort_key fst ?t2)))"
      using assms(2) by (simp add: transitionLines_sorted)
    finally show ?thesis by simp
  qed
  show ?thesis
    unfolding View_explicit [OF assms(1)] View_explicit [OF assms(2)]
    by (simp only: s ft fs fh assms(4) ln)
qed

text \<open>
  C7: \<^verbatim>\<open>View\<close> reads the table and returns the three texts without writing to it, and
  the texts depend on the registered transitions as a set only: two tables with the same
  registered transitions, in whatever order the map holds or yields them, and the same current
  state give the same three texts. The texts are spelt out: every state that is the \<open>From\<close>
  of a key or the \<open>To\<close> of a transition has one node line, the states taken in strictly
  increasing bytewise lexicographic order, the state at position \<open>i\<close> of that order being
  \<^verbatim>\<open>id<i>\<close> in the flow chart; every registered transition has one edge line in each
  text, the transitions taken in strictly increasing order of their keys under \<open>keyLess\<close>,
  the order by \<open>From\<close> and then by \<open>Event\<close>.
\<close>

theorem View_deterministic:
  assumes "distinct (map fst (transitions fm1))"
    and "distinct (map fst (transitions fm2))"
    and "set (transitions fm1) = set (transitions fm2)"
    and "current fm1 = current fm2"
  shows
    "View fm1 = View fm2 \<and>
     (let ss = sorted_list_of_set (\<Union>(k, v) \<in> set (transitions fm1). {fst k, To v});
          es = sort_key fst (transitions fm1);
          idOf = (\<lambda>s. case map_of (map (\<lambda>(i, s). (s, ''id'' @ itoa i)) (enumerate 0 ss)) s of
                         None \<Rightarrow> [] | Some v \<Rightarrow> v)
      in View fm1 =
           Some (''digraph fsm {'' @ nl @
                   concat (map (\<lambda>(k, v). ''    '' @ dq @ fst k @ dq @ '' -> '' @ dq @ To v @ dq @
                                  '' [ label = '' @ dq @ snd k @ dq @ '' ];'' @ nl) es) @ nl @
                   concat (map (\<lambda>s. (if s = current fm1
                                      then ''    '' @ dq @ s @ dq @ '' [color = '' @ dq @ ''red'' @ dq @ ''];''
                                      else ''    '' @ dq @ s @ dq @ '';'') @ nl) ss) @
                   ''}'' @ nl,
                 ''graph LR'' @ nl @
                   concat (map (\<lambda>s. ''    '' @ idOf s @ ''['' @ s @ '']'' @ nl) ss) @ nl @
                   concat (map (\<lambda>(k, v). ''    '' @ idOf (fst k) @ '' --> |'' @ snd k @ ''| '' @
                                  idOf (To v) @ nl) es) @ nl @
                   ''    style '' @ idOf (current fm1) @ '' fill:#00AA00'' @ nl,
                 ''stateDiagram'' @ nl @ ''    [*] --> '' @ current fm1 @ nl @
                   concat (map (\<lambda>(k, v). ''    '' @ fst k @ '' --> '' @ To v @ '': '' @ snd k @ nl)
                     es)) \<and>
         sorted_wrt (\<lambda>a b. a < b) ss \<and>
         set ss = (\<Union>(k, v) \<in> set (transitions fm1). {fst k, To v}) \<and>
         sorted_wrt keyLess (map fst es) \<and>
         set es = set (transitions fm1) \<and>
         length es = length (transitions fm1))"
    (is "_ \<and> ?texts")
proof -
  have e: "View fm1 = View fm2"
    using assms by (rule View_same_entries)
  let ?S = "\<Union>(k, v) \<in> set (transitions fm1). {fst k, To v}"
  have fin: "finite ?S" by auto
  have ss: "fst (getSortedStates (transitions fm1)) = sorted_list_of_set ?S"
    by (rule getSortedStates_sorted_list)
  have ids: "mapIndex (snd (getSortedStates (transitions fm1))) =
      (\<lambda>s. case map_of (map (\<lambda>(i, s). (s, ''id'' @ itoa i))
                          (enumerate 0 (sorted_list_of_set ?S))) s of
              None \<Rightarrow> [] | Some v \<Rightarrow> v)"
    by (intro ext) (simp only: mapIndex_def getSortedStates_ids ss)
  have a: "sorted_wrt (\<lambda>a b. a < b) (sorted_list_of_set ?S)"
    using fin by (simp add: strict_sorted_iff)
  have b: "set (sorted_list_of_set ?S) = ?S" using fin by simp
  have c: "sorted_wrt keyLess (map fst (sort_key fst (transitions fm1)))"
    using sorted_keys [OF assms(1)] by (simp add: getSortedTransitionKeys_sort map_sort_key)
  have gs: "graphVizState (current fm1) =
      (\<lambda>s. (if s = current fm1
                then ''    '' @ dq @ s @ dq @ '' [color = '' @ dq @ ''red'' @ dq @ ''];''
                else ''    '' @ dq @ s @ dq @ '';'') @ nl)"
    by (intro ext) (simp add: graphVizState_def)
  have fs: "flowChartState (snd (getSortedStates (transitions fm1))) =
      (\<lambda>s. ''    '' @ mapIndex (snd (getSortedStates (transitions fm1))) s @ ''['' @ s @ '']'' @ nl)"
    by (intro ext) (simp add: flowChartState_def)
  have ?texts
    unfolding Let_def View_explicit [OF assms(1)]
    using a b c
    by (simp add: graphVizTransition_def gs fs
        flowChartTransition_def flowChartHighlight_def diagramTransition_def ids ss)
  with e show ?thesis ..
qed

theorem View_deterministic_witness:
  "distinct (map fst (transitions scenarioD)) \<and>
   distinct (map fst (transitions scenarioD')) \<and>
   set (transitions scenarioD) = set (transitions scenarioD') \<and>
   current scenarioD = current scenarioD' \<and>
   map fst (transitions scenarioD) \<noteq> map fst (transitions scenarioD') \<and>
   View scenarioD = View scenarioD' \<and>
   View scenarioD' =
     Some (''digraph fsm {'' @ nl @
             ''    '' @ dq @ ''A'' @ dq @ '' -> '' @ dq @ ''B'' @ dq @
               '' [ label = '' @ dq @ ''e1'' @ dq @ '' ];'' @ nl @
             ''    '' @ dq @ ''B'' @ dq @ '' -> '' @ dq @ ''C'' @ dq @
               '' [ label = '' @ dq @ ''e2'' @ dq @ '' ];'' @ nl @
             ''    '' @ dq @ ''C'' @ dq @ '' -> '' @ dq @ ''A'' @ dq @
               '' [ label = '' @ dq @ ''e3'' @ dq @ '' ];'' @ nl @
             nl @
             ''    '' @ dq @ ''A'' @ dq @ '' [color = '' @ dq @ ''red'' @ dq @ ''];'' @ nl @
             ''    '' @ dq @ ''B'' @ dq @ '';'' @ nl @
             ''    '' @ dq @ ''C'' @ dq @ '';'' @ nl @
             ''}'' @ nl,
           ''graph LR'' @ nl @
             ''    id0[A]'' @ nl @
             ''    id1[B]'' @ nl @
             ''    id2[C]'' @ nl @
             nl @
             ''    id0 --> |e1| id1'' @ nl @
             ''    id1 --> |e2| id2'' @ nl @
             ''    id2 --> |e3| id0'' @ nl @
             nl @
             ''    style id0 fill:#00AA00'' @ nl,
           ''stateDiagram'' @ nl @
             ''    [*] --> A'' @ nl @
             ''    A --> B: e1'' @ nl @
             ''    B --> C: e2'' @ nl @
             ''    C --> A: e3'' @ nl)"
proof -
  have a: "distinct (map fst (transitions scenarioD))" by (simp add: scenarioD_eq)
  have b: "distinct (map fst (transitions scenarioD'))" by (simp add: scenarioD'_eq)
  have c: "set (transitions scenarioD) = set (transitions scenarioD')"
    by (auto simp: scenarioD_eq scenarioD'_eq)
  have d: "current scenarioD = current scenarioD'" by (simp add: scenarioD_eq scenarioD'_eq)
  have e: "map fst (transitions scenarioD) \<noteq> map fst (transitions scenarioD')"
    by (simp add: scenarioD_eq scenarioD'_eq)
  have t: "View scenarioD' =
     Some (''digraph fsm {'' @ nl @
             ''    '' @ dq @ ''A'' @ dq @ '' -> '' @ dq @ ''B'' @ dq @
               '' [ label = '' @ dq @ ''e1'' @ dq @ '' ];'' @ nl @
             ''    '' @ dq @ ''B'' @ dq @ '' -> '' @ dq @ ''C'' @ dq @
               '' [ label = '' @ dq @ ''e2'' @ dq @ '' ];'' @ nl @
             ''    '' @ dq @ ''C'' @ dq @ '' -> '' @ dq @ ''A'' @ dq @
               '' [ label = '' @ dq @ ''e3'' @ dq @ '' ];'' @ nl @
             nl @
             ''    '' @ dq @ ''A'' @ dq @ '' [color = '' @ dq @ ''red'' @ dq @ ''];'' @ nl @
             ''    '' @ dq @ ''B'' @ dq @ '';'' @ nl @
             ''    '' @ dq @ ''C'' @ dq @ '';'' @ nl @
             ''}'' @ nl,
           ''graph LR'' @ nl @
             ''    id0[A]'' @ nl @
             ''    id1[B]'' @ nl @
             ''    id2[C]'' @ nl @
             nl @
             ''    id0 --> |e1| id1'' @ nl @
             ''    id1 --> |e2| id2'' @ nl @
             ''    id2 --> |e3| id0'' @ nl @
             nl @
             ''    style id0 fill:#00AA00'' @ nl,
           ''stateDiagram'' @ nl @
             ''    [*] --> A'' @ nl @
             ''    A --> B: e1'' @ nl @
             ''    B --> C: e2'' @ nl @
             ''    C --> A: e3'' @ nl)"
    by code_simp
  from View_deterministic [OF a b c d, THEN conjunct1] a b c d e t show ?thesis
    by (simp only: simp_thms)
qed

text \<open>
  C8, as the code has it: the state diagram is the header line \<^verbatim>\<open>stateDiagram\<close>, then the
  line \<^verbatim>\<open>    [*] --> <current state>\<close> with the state current when \<^verbatim>\<open>View\<close> runs, then
  one line \<^verbatim>\<open>    <from> --> <to>: <event>\<close> for each registered transition, the transitions
  taken in increasing order of their key \<open>(From, Event)\<close>; every line starts with four
  spaces, the header apart.
\<close>

theorem View_diagram_lines:
  assumes "distinct (map fst (transitions fm))"
  shows "map_option (snd \<circ> snd) (View fm) =
           Some (''stateDiagram'' @ nl @ ''    [*] --> '' @ CurrentState fm @ nl @
                 concat (map (\<lambda>(k, v). ''    '' @ fst k @ '' --> '' @ To v @ '': '' @ snd k @ nl)
                   (sort_key fst (transitions fm)))) \<and>
         set (sort_key fst (transitions fm)) = set (transitions fm) \<and>
         length (sort_key fst (transitions fm)) = length (transitions fm) \<and>
         sorted_wrt keyLess (map fst (sort_key fst (transitions fm)))"
proof -
  have "sorted_wrt keyLess (map fst (sort_key fst (transitions fm)))"
    using sorted_keys [OF assms] by (simp add: getSortedTransitionKeys_sort map_sort_key)
  then show ?thesis
    by (simp add: View_explicit [OF assms] diagramTransition_def CurrentState_def)
qed

lemma scenarioD'_e1: "snd (Trigger scenarioD' ''e1'') = scenarioD'\<lparr>current := ''B''\<rparr>"
  by (simp add: scenarioD'_eq Trigger_def newTransition_def succeed_def)

theorem View_diagram_lines_witness:
  "distinct (map fst (transitions (snd (Trigger scenarioD' ''e1'')))) \<and>
   map_option (snd \<circ> snd) (View (snd (Trigger scenarioD' ''e1''))) =
     Some (''stateDiagram'' @ nl @
           ''    [*] --> B'' @ nl @
           ''    A --> B: e1'' @ nl @
           ''    B --> C: e2'' @ nl @
           ''    C --> A: e3'' @ nl)"
proof -
  have d: "distinct (map fst (transitions (snd (Trigger scenarioD' ''e1''))))"
    by (simp add: scenarioD'_e1) (simp add: scenarioD'_eq)
  have s: "sort_key fst (transitions (snd (Trigger scenarioD' ''e1''))) =
        [((''A'', ''e1''), newTransition ''A'' ''e1'' ''B'' succeed),
         ((''B'', ''e2''), newTransition ''B'' ''e2'' ''C'' succeed),
         ((''C'', ''e3''), newTransition ''C'' ''e3'' ''A'' succeed)]"
    by (simp add: scenarioD'_e1) (simp add: scenarioD'_eq less_eq_prod_def)
  have c: "CurrentState (snd (Trigger scenarioD' ''e1'')) = ''B''"
    by (simp add: scenarioD'_e1 CurrentState_def)
  from View_diagram_lines [OF d] d show ?thesis
    by (simp add: s c newTransition_def)
qed

text \<open>
  The first line of the diagram of Scenario D is the header, not the edge from the start
  marker.
\<close>

theorem View_first_line_counterexample:
  "map_option (firstLine \<circ> snd \<circ> snd) (View scenarioD) = Some ''stateDiagram'' \<and>
   map_option (firstLine \<circ> snd \<circ> snd) (View scenarioD) \<noteq> Some ''[*] --> A''"
  by code_simp

text \<open>
  C9, as the code has it: on a table without transitions \<^verbatim>\<open>View\<close> returns (it does not
  panic); the graph description is its header, an empty line and its footer; the flow chart
  is its header and two empty lines, with no node and no edge, followed by the highlight
  line that \<^verbatim>\<open>View\<close> writes for the current state whatever the table holds; the state
  diagram is its header and the edge from the start marker to the current state.
\<close>

theorem View_empty:
  assumes "transitions fm = []"
  shows "View fm =
           Some (''digraph fsm {'' @ nl @ nl @ ''}'' @ nl,
                 ''graph LR'' @ nl @ nl @ nl @ flowChartHighlight [] (CurrentState fm),
                 ''stateDiagram'' @ nl @ ''    [*] --> '' @ CurrentState fm @ nl)"
  using assms
  by (simp add: View_def getSortedTransitionKeys_def sortSlice_def getSortedStates_def
      collectStates_def sortStrings_def assignIDs_def CurrentState_def)

theorem View_empty_witness:
  "transitions (NewStateMachine ''Pending'') = [] \<and>
   View (NewStateMachine ''Pending'') =
     Some (''digraph fsm {'' @ nl @ nl @ ''}'' @ nl,
           ''graph LR'' @ nl @ nl @ nl @ flowChartHighlight [] ''Pending'',
           ''stateDiagram'' @ nl @ ''    [*] --> Pending'' @ nl)"
proof -
  have e: "transitions (NewStateMachine ''Pending'') = []" by (simp add: NewStateMachine_def)
  have c: "CurrentState (NewStateMachine ''Pending'') = ''Pending''"
    by (simp add: NewStateMachine_def CurrentState_def)
  from View_empty [OF e] e show ?thesis by (simp add: c)
qed

text \<open>
  So two of the three texts of an empty table have more than header and footer: the flow
  chart ends with a highlight line and the state diagram has its start edge.
\<close>

theorem empty_table_texts_counterexample:
  "View (NewStateMachine ''A'') =
     Some (''digraph fsm {'' @ nl @ nl @ ''}'' @ nl,
           ''graph LR'' @ nl @ nl @ nl @ ''    style  fill:#00AA00'' @ nl,
           ''stateDiagram'' @ nl @ ''    [*] --> A'' @ nl) \<and>
   map_option (fst \<circ> snd) (View (NewStateMachine ''A'')) \<noteq> Some (''graph LR'' @ nl @ nl @ nl) \<and>
   map_option (snd \<circ> snd) (View (NewStateMachine ''A'')) \<noteq> Some (''stateDiagram'' @ nl)"
  by code_simp

section \<open>Locking\<close>

lemma guarded_append:
  assumes "MutexLock \<notin> set as" and "MutexUnlock \<notin> set as"
  shows "guarded True (as @ bs) = guarded True bs"
  using assms
proof (induction as)
  case Nil
  show ?case by simp
next
  case (Cons a as)
  then show ?case by (cases a) simp_all
qed

lemma CurrentState_unguarded: "\<not> guarded False (CurrentState_accesses fm)"
  by (simp add: CurrentState_accesses_def)

lemma View_unguarded: "\<not> guarded False (View_accesses fm)"
  by (simp add: View_accesses_def Let_def)

lemma Trigger_guarded: "guarded False (Trigger_accesses fm event)"
  by (simp add: Trigger_accesses_def split: option.splits)

lemma addTransition_accesses_no_mutex:
  "MutexLock \<notin> set (addTransition_accesses fm p) \<and>
   MutexUnlock \<notin> set (addTransition_accesses fm p)"
  by (simp add: addTransition_accesses_def split: option.splits)

lemma loop_accesses_no_mutex:
  "MutexLock \<notin> set (AddTransitions_loop_accesses fm batch) \<and>
   MutexUnlock \<notin> set (AddTransitions_loop_accesses fm batch)"
proof (induction batch arbitrary: fm)
  case Nil
  show ?case by simp
next
  case (Cons p ps)
  obtain r fm1 where s: "addTransition fm p = (r, fm1)" by (cases "addTransition fm p")
  show ?case
    using addTransition_accesses_no_mutex [of fm p] Cons.IH [of fm1] s
    by (cases r) simp_all
qed

lemma AddTransitions_guarded: "guarded False (AddTransitions_accesses fm batch)"
  using loop_accesses_no_mutex [of fm batch]
  by (simp add: AddTransitions_accesses_def guarded_append)

text \<open>
  C10: \<^verbatim>\<open>Trigger\<close> and \<^verbatim>\<open>AddTransitions\<close> touch \<^verbatim>\<open>fm.current\<close> and
  \<^verbatim>\<open>fm.transitions\<close> only between \<^verbatim>\<open>Lock\<close> and \<^verbatim>\<open>Unlock\<close>, but
  \<^verbatim>\<open>CurrentState\<close> and \<^verbatim>\<open>View\<close> read them without taking the mutex.
\<close>

theorem unguarded_reads:
  "\<not> guarded False (CurrentState_accesses scenarioA) \<and>
   \<not> guarded False (View_accesses scenarioA) \<and>
   guarded False (Trigger_accesses scenarioA ''Pay'') \<and>
   guarded False (AddTransitions_accesses (NewStateMachine ''Pending'')
     [Some (newTransition ''Pending'' ''Pay'' ''Paid'' succeed),
      Some (newTransition ''Pending'' ''Cancel'' ''Canceled'' succeed)])"
  by code_simp

end
